theory Spec2Isabelle
  imports Complex_Main
begin

section \<open>JavaScript values used by the client\<close>

text \<open>
  \<^verbatim>\<open>UserPreferences.maxDistance\<close> is declared \<^verbatim>\<open>number\<close>. A JavaScript number is a
  finite double, \<^verbatim>\<open>NaN\<close> or an infinity; the form binding stores \<^verbatim>\<open>null\<close> for an emptied
  number field, and a field that was never set reads \<^verbatim>\<open>undefined\<close>. Only comparisons
  with the literals 1 and 50 are made on it, and comparisons of doubles are exact, so a
  finite double is modelled by the rational it denotes.
\<close>

datatype js_number = Fin rat | NaN | PosInf | NegInf | Null | Undefined

text \<open>\<^verbatim>\<open>!dist\<close>: the falsy values are 0, NaN, null and undefined.\<close>

fun js_falsy :: "js_number \<Rightarrow> bool" where
  "js_falsy (Fin q) = (q = 0)"
| "js_falsy NaN = True"
| "js_falsy PosInf = False"
| "js_falsy NegInf = False"
| "js_falsy Null = True"
| "js_falsy Undefined = True"

text \<open>
  \<^verbatim>\<open>dist < c\<close> and \<^verbatim>\<open>dist > c\<close> for a finite literal \<open>c\<close>: \<^verbatim>\<open>null\<close> converts to 0,
  \<^verbatim>\<open>undefined\<close> to NaN, and every comparison with NaN is false.
\<close>

fun js_lt :: "js_number \<Rightarrow> rat \<Rightarrow> bool" where
  "js_lt (Fin q) c = (q < c)"
| "js_lt NaN c = False"
| "js_lt PosInf c = False"
| "js_lt NegInf c = True"
| "js_lt Null c = (0 < c)"
| "js_lt Undefined c = False"

fun js_gt :: "js_number \<Rightarrow> rat \<Rightarrow> bool" where
  "js_gt (Fin q) c = (c < q)"
| "js_gt NaN c = False"
| "js_gt PosInf c = True"
| "js_gt NegInf c = False"
| "js_gt Null c = (c < 0)"
| "js_gt Undefined c = False"

text \<open>
  The remainder operator \<^verbatim>\<open>%\<close> on integers truncates towards zero: the result has the
  sign of the dividend. (A zero divisor gives NaN in JavaScript; every use below is
  guarded by a non-empty prediction list.)
\<close>

definition js_rem :: "int \<Rightarrow> int \<Rightarrow> int" where
  "js_rem a b = sgn a * (\<bar>a\<bar> mod \<bar>b\<bar>)"

datatype js_error = TypeError

section \<open>Search component: data\<close>

record user_preferences =
  maxDistance :: js_number
  minRating :: rat
  dietaryRestrictions :: "string list"
  favoriteStyles :: "string list"

text \<open>A \<^verbatim>\<open>SearchRequest\<close>, with the fields the client fills in.\<close>

record search_request =
  req_address :: string
  req_latitude :: "rat option"
  req_longitude :: "rat option"
  req_preferences :: "user_preferences option"

record prediction =
  description :: string
  place_id :: string

record ai_summary =
  restaurantId :: string
  summary :: string
  highlights :: "string list"
  recommendations :: "string list"

text \<open>Of a \<^verbatim>\<open>Restaurant\<close>, the fields the client reads or writes: \<^verbatim>\<open>id\<close> (here \<open>r_id\<close>),
  \<^verbatim>\<open>name\<close>, \<^verbatim>\<open>photoUrl\<close> and \<^verbatim>\<open>aiSummary\<close>. The others are only displayed.\<close>

record restaurant =
  r_id :: string
  name :: string
  photoUrl :: "string option"
  aiSummary :: "ai_summary option"


record search_component =
  address :: string
  sc_loading :: bool
  showDietaryDropdown :: bool
  predictions :: "prediction list"
  showPredictions :: bool
  activePredictionIndex :: int
  errorMessage :: string
  sessionToken :: "string option"
  preferences :: user_preferences

text \<open>What a handler asks of its collaborators: the gateway calls it dispatches, the
  blocking dialogs it opens, and \<^verbatim>\<open>event.preventDefault()\<close>.\<close>

datatype effect =
    PreventDefault
  | GetAutocompletePredictions string "string option"
  | GetGooglePlaceDetails string
  | GetPizzaRecommendations search_request
  | GetAISummary string
  | LoadImage string
  | OnSearch search_request
  | SetTimeout nat
  | Alert string

datatype key = ArrowDown | ArrowUp | Enter | Escape | OtherKey string

section \<open>Search component: operations\<close>

text \<open>\<^verbatim>\<open>validateDistance\<close>: the blur of the event target does not touch the component.\<close>

definition validateDistance :: "search_component \<Rightarrow> search_component" where
  "validateDistance c =
     (let dist = maxDistance (preferences c);
          dist = (if js_falsy dist \<or> js_lt dist 1 then Fin 1 else dist);
          dist = (if js_gt dist 50 then Fin 50 else dist)
      in c\<lparr>preferences := (preferences c)\<lparr>maxDistance := dist\<rparr>\<rparr>)"

text \<open>
  \<^verbatim>\<open>fetchPredictions\<close> up to the dispatch of the gateway call; the two callbacks of the
  subscription are the functions \<open>fetchPredictions_next\<close> and \<open>fetchPredictions_error\<close>.
\<close>

definition fetchPredictions :: "string \<Rightarrow> search_component \<Rightarrow> search_component \<times> effect list" where
  "fetchPredictions query c =
     (let c = c\<lparr>errorMessage := ''''\<rparr>
      in if query = [] \<or> length query < 3
         then (c\<lparr>predictions := [], showPredictions := False\<rparr>, [])
         else (c, [GetAutocompletePredictions query (sessionToken c)]))"

definition fetchPredictions_next :: "prediction list \<Rightarrow> search_component \<Rightarrow> search_component" where
  "fetchPredictions_next ps c =
     c\<lparr>predictions := ps, showPredictions := (length ps > 0), activePredictionIndex := -1\<rparr>"

definition fetchPredictions_error :: "search_component \<Rightarrow> search_component" where
  "fetchPredictions_error c = c\<lparr>predictions := []\<rparr>"

text \<open>\<^verbatim>\<open>selectPrediction\<close> up to the dispatch of the place-details call.\<close>

definition selectPrediction :: "prediction \<Rightarrow> search_component \<Rightarrow> search_component \<times> effect list" where
  "selectPrediction p c =
     (c\<lparr>address := description p, showPredictions := False\<rparr>, [GetGooglePlaceDetails (place_id p)])"

text \<open>
  \<^verbatim>\<open>onKeydown\<close>. Reading \<^verbatim>\<open>predictions[i]\<close> past the end gives \<^verbatim>\<open>undefined\<close>, and
  \<^verbatim>\<open>selectPrediction(undefined)\<close> throws a TypeError on \<^verbatim>\<open>prediction.description\<close>.
\<close>

definition onKeydown :: "key \<Rightarrow> search_component \<Rightarrow> js_error + (search_component \<times> effect list)" where
  "onKeydown k c =
     (if \<not> showPredictions c \<or> length (predictions c) = 0 then Inr (c, [])
      else case k of
        ArrowDown \<Rightarrow>
          Inr (c\<lparr>activePredictionIndex :=
                  js_rem (activePredictionIndex c + 1) (int (length (predictions c)))\<rparr>,
               [PreventDefault])
      | ArrowUp \<Rightarrow>
          Inr (c\<lparr>activePredictionIndex :=
                  js_rem (activePredictionIndex c - 1 + int (length (predictions c)))
                         (int (length (predictions c)))\<rparr>,
               [PreventDefault])
      | Enter \<Rightarrow>
          (if activePredictionIndex c \<ge> 0
           then (if nat (activePredictionIndex c) < length (predictions c)
                 then (case selectPrediction (predictions c ! nat (activePredictionIndex c)) c of
                         (c', es) \<Rightarrow> Inr (c', PreventDefault # es))
                 else Inl TypeError)
           else Inr (c, [PreventDefault]))
      | Escape \<Rightarrow> Inr (c\<lparr>showPredictions := False\<rparr>, [])
      | OtherKey _ \<Rightarrow> Inr (c, []))"

text \<open>The field initialisers of the class.\<close>

definition search_component_init :: search_component where
  "search_component_init =
     \<lparr>address = '''', sc_loading = False, showDietaryDropdown = False, predictions = [],
      showPredictions = False, activePredictionIndex = -1, errorMessage = '''',
      sessionToken = None,
      preferences = \<lparr>maxDistance = Fin 10, minRating = 3, dietaryRestrictions = [],
                     favoriteStyles = []\<rparr>\<rparr>"

text \<open>The active index is -1 or a position of the prediction list, whenever there are
  predictions.\<close>

definition index_in_range :: "search_component \<Rightarrow> bool" where
  "index_in_range c =
     (-1 \<le> activePredictionIndex c
      \<and> (predictions c = [] \<or> activePredictionIndex c < int (length (predictions c))))"

section \<open>Autocomplete input pipeline\<close>

text \<open>
  \<^verbatim>\<open>onInputChange\<close> pushes the current address into \<^verbatim>\<open>searchSubject\<close>; \<^verbatim>\<open>ngOnInit\<close>
  subscribes \<^verbatim>\<open>fetchPredictions\<close> behind \<^verbatim>\<open>debounceTime(300)\<close> and
  \<^verbatim>\<open>distinctUntilChanged()\<close>. Time is counted in milliseconds; an emission of the
  subject is a pair of its time and its value, and a trace lists the emissions in the
  order they happen.

  \<^verbatim>\<open>debounceTime(d)\<close> keeps the latest value and a timer of \<open>d\<close> ms that every new
  value restarts; when the timer fires, the kept value is emitted. \<open>now\<close> is the time up
  to which the trace has been observed: the timer of the last value has fired iff it
  was due by then. A value arriving exactly when the timer is due is taken to arrive
  after the timer has fired.
\<close>

fun debounceTime :: "nat \<Rightarrow> nat \<Rightarrow> (nat \<times> 'a) list \<Rightarrow> (nat \<times> 'a) list" where
  "debounceTime d now [] = []"
| "debounceTime d now [(t, v)] = (if t + d \<le> now then [(t + d, v)] else [])"
| "debounceTime d now ((t, v) # (t', v') # rest) =
     (if t + d \<le> t' then [(t + d, v)] else []) @ debounceTime d now ((t', v') # rest)"

text \<open>\<^verbatim>\<open>distinctUntilChanged()\<close> compares each value with the last one it let through
  (\<^verbatim>\<open>===\<close>, which on strings is equality of contents); the first value always passes.\<close>

fun distinctUntilChanged_from :: "'a option \<Rightarrow> (nat \<times> 'a) list \<Rightarrow> (nat \<times> 'a) list" where
  "distinctUntilChanged_from prev [] = []"
| "distinctUntilChanged_from prev ((t, v) # rest) =
     (if prev = Some v then distinctUntilChanged_from prev rest
      else (t, v) # distinctUntilChanged_from (Some v) rest)"

definition distinctUntilChanged :: "(nat \<times> 'a) list \<Rightarrow> (nat \<times> 'a) list" where
  "distinctUntilChanged evs = distinctUntilChanged_from None evs"

definition onInputChange :: "nat \<Rightarrow> search_component \<Rightarrow> nat \<times> string" where
  "onInputChange t c = (t, address c)"

text \<open>The calls \<^verbatim>\<open>fetchPredictions(query)\<close> made by the subscription of \<^verbatim>\<open>ngOnInit\<close>,
  each with the time it is made, for a trace of \<^verbatim>\<open>searchSubject\<close> observed up to \<open>now\<close>.\<close>

definition searchSubscription :: "nat \<Rightarrow> (nat \<times> string) list \<Rightarrow> (nat \<times> string) list" where
  "searchSubscription now nexts = distinctUntilChanged (debounceTime 300 now nexts)"

text \<open>A trace is in time order.\<close>

fun time_ordered :: "(nat \<times> 'a) list \<Rightarrow> bool" where
  "time_ordered [] = True"
| "time_ordered [e] = True"
| "time_ordered ((t, v) # (t', v') # rest) = (t \<le> t' \<and> time_ordered ((t', v') # rest))"

section \<open>Geolocation provider\<close>

record position_options =
  enableHighAccuracy :: bool
  timeout :: nat
  maximumAge :: nat

record geolocation_position =
  latitude :: rat
  longitude :: rat

text \<open>A \<^verbatim>\<open>GeolocationPositionError\<close>: code 1 is PERMISSION_DENIED, 2 POSITION_UNAVAILABLE,
  3 TIMEOUT.\<close>

record position_error =
  code :: nat
  message :: string

text \<open>What the observable of \<^verbatim>\<open>getCurrentPosition\<close> can fail with: the plain \<^verbatim>\<open>Error\<close>
  of the missing-API guard, or the browser's position error.\<close>

datatype location_error = NotSupported string | PositionFailed position_error

definition highAccuracyOptions :: position_options where
  "highAccuracyOptions = \<lparr>enableHighAccuracy = True, timeout = 5000, maximumAge = 0\<rparr>"

definition lowAccuracyOptions :: position_options where
  "lowAccuracyOptions = \<lparr>enableHighAccuracy = False, timeout = 10000, maximumAge = 0\<rparr>"

text \<open>
  \<^verbatim>\<open>LocationService.getCurrentPosition\<close>. \<^verbatim>\<open>navigator.geolocation\<close> is absent
  (\<open>None\<close>) or answers each acquisition attempt, made with some options, by a position
  or a position error. The result is the list of attempts made, in order, and what the
  observable delivers.
\<close>

definition getCurrentPosition ::
  "(position_options \<Rightarrow> position_error + geolocation_position) option
     \<Rightarrow> position_options list \<times> (location_error + geolocation_position)" where
  "getCurrentPosition geolocation =
     (case geolocation of
        None \<Rightarrow> ([], Inl (NotSupported ''Geolocation is not supported by this browser.''))
      | Some acquire \<Rightarrow>
          (case acquire highAccuracyOptions of
             Inr position \<Rightarrow> ([highAccuracyOptions], Inr position)
           | Inl error \<Rightarrow>
               if code error = 1 then ([highAccuracyOptions], Inl (PositionFailed error))
               else (case acquire lowAccuracyOptions of
                       Inr position \<Rightarrow> ([highAccuracyOptions, lowAccuracyOptions], Inr position)
                     | Inl fallbackError \<Rightarrow>
                         ([highAccuracyOptions, lowAccuracyOptions],
                          Inl (PositionFailed fallbackError)))))"

section \<open>Restaurants and the results component\<close>

text \<open>The \<^verbatim>\<open>ResultsComponent\<close>; its own \<^verbatim>\<open>aiSummary\<close> and \<^verbatim>\<open>loading\<close> fields are
  \<open>rc_aiSummary\<close> and \<open>rc_loading\<close> here.\<close>

record results_component =
  rc_restaurants :: "restaurant list"
  selectedRestaurant :: "restaurant option"
  rc_aiSummary :: "ai_summary option"
  loadingSummary :: bool
  rc_loading :: bool

text \<open>\<^verbatim>\<open>loadAISummary\<close> up to the dispatch of the request, and its two callbacks.\<close>

definition loadAISummary :: "string \<Rightarrow> results_component \<Rightarrow> results_component \<times> effect list" where
  "loadAISummary restaurantId' c =
     (c\<lparr>loadingSummary := True, rc_aiSummary := None\<rparr>, [GetAISummary restaurantId'])"

definition loadAISummary_next :: "ai_summary \<Rightarrow> results_component \<Rightarrow> results_component" where
  "loadAISummary_next s c = c\<lparr>rc_aiSummary := Some s, loadingSummary := False\<rparr>"

definition loadAISummary_error :: "results_component \<Rightarrow> results_component" where
  "loadAISummary_error c = c\<lparr>loadingSummary := False\<rparr>"

definition selectRestaurant :: "restaurant \<Rightarrow> results_component \<Rightarrow> results_component \<times> effect list" where
  "selectRestaurant r c =
     (let c = c\<lparr>selectedRestaurant := Some r\<rparr>
      in case aiSummary r of
           Some s \<Rightarrow> (c\<lparr>rc_aiSummary := Some s, loadingSummary := False\<rparr>, [])
         | None \<Rightarrow> loadAISummary (r_id r) c)"

text \<open>
  \<^verbatim>\<open>preloadSummaries\<close>: the \<^verbatim>\<open>next\<close> callback of the request it sends for the \<open>i\<close>-th
  restaurant of the list, which writes the summary to that restaurant.
\<close>

definition preloadSummaries_next :: "nat \<Rightarrow> ai_summary \<Rightarrow> results_component \<Rightarrow> results_component" where
  "preloadSummaries_next i s c =
     (if i < length (rc_restaurants c)
      then c\<lparr>rc_restaurants := (rc_restaurants c)[i := (rc_restaurants c ! i)\<lparr>aiSummary := Some s\<rparr>]\<rparr>
      else c)"

section \<open>Locating the user from the search component\<close>

text \<open>\<^verbatim>\<open>performSearch\<close> emits the request on \<^verbatim>\<open>onSearch\<close> and arms a timer of 1000 ms
  that unlocks the form.\<close>

definition performSearch :: "search_request \<Rightarrow> search_component \<Rightarrow> search_component \<times> effect list" where
  "performSearch searchRequest c = (c, [OnSearch searchRequest, SetTimeout 1000])"

text \<open>\<^verbatim>\<open>useCurrentLocation\<close>: the \<^verbatim>\<open>next\<close> and \<^verbatim>\<open>error\<close> callbacks of its subscription,
  and the whole handler run against a geolocation API. The \<^verbatim>\<open>Error\<close> of the missing-API
  guard has no \<^verbatim>\<open>code\<close>, so it gets the generic message.\<close>

definition useCurrentLocation_next ::
  "geolocation_position \<Rightarrow> search_component \<Rightarrow> search_component \<times> effect list" where
  "useCurrentLocation_next position c =
     performSearch \<lparr>req_address = ''Current Location'',
                    req_latitude = Some (latitude position),
                    req_longitude = Some (longitude position),
                    req_preferences = Some (preferences c)\<rparr> c"

definition useCurrentLocation_error ::
  "location_error \<Rightarrow> search_component \<Rightarrow> search_component \<times> effect list" where
  "useCurrentLocation_error e c =
     (let msg = (case e of
                   NotSupported _ \<Rightarrow>
                     ''Unable to get your location. Please enter an address manually.''
                 | PositionFailed pe \<Rightarrow>
                     if code pe = 1
                     then ''Location permission denied. Please allow access in browser settings.''
                     else if code pe = 2
                     then ''Location unavailable. Ensure GPS is on and try again.''
                     else if code pe = 3
                     then ''Location request timed out. Please try again.''
                     else ''Unable to get your location. Please enter an address manually.'')
      in (c\<lparr>sc_loading := False\<rparr>, [Alert msg]))"

definition useCurrentLocation ::
  "(position_options \<Rightarrow> position_error + geolocation_position) option
     \<Rightarrow> search_component \<Rightarrow> search_component \<times> effect list" where
  "useCurrentLocation geolocation c =
     (let c = c\<lparr>sc_loading := True\<rparr>
      in case snd (getCurrentPosition geolocation) of
           Inr position \<Rightarrow> useCurrentLocation_next position c
         | Inl e \<Rightarrow> useCurrentLocation_error e c)"

section \<open>Search orchestrator\<close>



text \<open>The value a task of the fan-out emits: a summary task the summary or \<^verbatim>\<open>null\<close>,
  an image task \<^verbatim>\<open>true\<close> or \<^verbatim>\<open>false\<close>.\<close>

datatype task_value = SummaryValue "ai_summary option" | ImageValue bool

text \<open>
  The \<^verbatim>\<open>App\<close> component, and with it what \<^verbatim>\<open>handleSearch\<close> leaves behind for its
  callbacks:
  \<^item> \<open>messageInterval\<close>: the repeating timer of \<^verbatim>\<open>startMessageCycle\<close> is running;
  \<^item> \<open>results\<close>: the array the recommendation fetch delivered, which every closure of
    the fan-out shares and the summary tasks write to;
  \<^item> \<open>tasks\<close>: for each source given to \<^verbatim>\<open>forkJoin\<close>, in order, the value it emitted
    before completing, \<open>None\<close> while it has not completed;
  \<^item> \<open>revealTimer\<close>: the delay of the pending \<^verbatim>\<open>setTimeout\<close> of the reveal, if armed;
  \<^item> \<open>effects\<close>: the requests dispatched and dialogs opened so far.

  One search is followed at a time. The ticks of the message timer only rotate the
  status text and are left out.
\<close>

record app =
  started :: bool
  restaurants :: "restaurant list"
  lastSearchRequest :: "search_request option"
  loading :: bool
  loadingMessage :: string
  messageInterval :: bool
  results :: "restaurant list"
  tasks :: "task_value option list"
  revealTimer :: "nat option"
  effects :: "effect list"

definition app_init :: app where
  "app_init =
     \<lparr>started = False, restaurants = [], lastSearchRequest = None, loading = False,
      loadingMessage = ''Finding the perfect pizza spots...'', messageInterval = False,
      results = [], tasks = [], revealTimer = None, effects = []\<rparr>"

text \<open>\<^verbatim>\<open>handleSearch\<close> up to the dispatch of the recommendation fetch.\<close>

definition handleSearch :: "search_request \<Rightarrow> app \<Rightarrow> app" where
  "handleSearch searchRequest a =
     a\<lparr>lastSearchRequest := Some searchRequest,
       loading := True,
       loadingMessage := ''Finding the perfect pizza spots...'',
       restaurants := [],
       messageInterval := True,
       effects := effects a @ [GetPizzaRecommendations searchRequest]\<rparr>"


text \<open>
  \<^verbatim>\<open>forkJoin(tasks)\<close> emits once, when every source has completed, provided there is
  at least one source and each emitted a value; given an empty array it completes at
  once and emits nothing. The subscription in \<^verbatim>\<open>handleSearch\<close> has a \<^verbatim>\<open>next\<close> callback
  only.
\<close>

definition forkJoin_emits :: "'a option list \<Rightarrow> bool" where
  "forkJoin_emits slots = (slots \<noteq> [] \<and> list_all (\<lambda>s. s \<noteq> None) slots)"

text \<open>The \<^verbatim>\<open>next\<close> callback of \<^verbatim>\<open>forkJoin(tasks).subscribe\<close>.\<close>

definition forkJoin_next :: "app \<Rightarrow> app" where
  "forkJoin_next a =
     a\<lparr>messageInterval := False, loadingMessage := ''Almost ready...'',
       revealTimer := Some 1500\<rparr>"

text \<open>The callback of that \<^verbatim>\<open>setTimeout\<close>.\<close>

definition reveal :: "app \<Rightarrow> app" where
  "reveal a = a\<lparr>restaurants := results a, loading := False, revealTimer := None\<rparr>"

text \<open>\<^verbatim>\<open>!r.photoUrl\<close>: no photo reference, or an empty one.\<close>

definition no_photo :: "restaurant \<Rightarrow> bool" where
  "no_photo r = (case photoUrl r of None \<Rightarrow> True | Some u \<Rightarrow> u = [])"

text \<open>
  The \<^verbatim>\<open>next\<close> callback of the recommendation fetch. Subscribing \<^verbatim>\<open>forkJoin\<close>
  subscribes the sources in order: each summary source sends its request, each image
  source either emits \<^verbatim>\<open>true\<close> and completes on the spot (no photo) or starts loading
  its image.
\<close>

definition handleSearch_next :: "restaurant list \<Rightarrow> app \<Rightarrow> app" where
  "handleSearch_next rs a =
     (let summaryTasks = map (\<lambda>r. None) rs;
          imageTasks = map (\<lambda>r. if no_photo r then Some (ImageValue True) else None) rs;
          a = a\<lparr>loadingMessage := ''Finalizing your personalized menu...'',
                results := rs,
                tasks := summaryTasks @ imageTasks,
                effects := effects a @ map (\<lambda>r. GetAISummary (r_id r)) rs
                             @ concat (map (\<lambda>r. case photoUrl r of
                                                    None \<Rightarrow> []
                                                  | Some u \<Rightarrow> if u = [] then [] else [LoadImage u])
                                           rs)\<rparr>
      in if forkJoin_emits (tasks a) then forkJoin_next a else a)"

text \<open>A source of \<^verbatim>\<open>forkJoin\<close> emits \<open>v\<close> and completes.\<close>

definition task_settled :: "nat \<Rightarrow> task_value \<Rightarrow> app \<Rightarrow> app" where
  "task_settled i v a =
     (let a = a\<lparr>tasks := (tasks a)[i := Some v]\<rparr>
      in if forkJoin_emits (tasks a) then forkJoin_next a else a)"

definition pending :: "nat \<Rightarrow> app \<Rightarrow> bool" where
  "pending i a = (i < length (tasks a) \<and> tasks a ! i = None)"

text \<open>
  What can happen after the fan-out: the summary request of the \<open>i\<close>-th result answers
  or fails, the image of the \<open>i\<close>-th result loads or fails to load, the armed timer
  fires. An event of a task that is not running, or of a timer that is not armed,
  cannot happen and changes nothing. A summary answer goes through \<^verbatim>\<open>map\<close>, which
  writes it to the restaurant; a summary failure goes through \<^verbatim>\<open>catchError\<close>, which
  emits \<^verbatim>\<open>null\<close>.
\<close>

datatype event =
    SummaryResponse nat ai_summary
  | SummaryError nat
  | ImageOnload nat
  | ImageOnerror nat
  | TimeoutFired

fun step :: "event \<Rightarrow> app \<Rightarrow> app" where
  "step (SummaryResponse i s) a =
     (if i < length (results a) \<and> pending i a
      then task_settled i (SummaryValue (Some s))
             (a\<lparr>results := (results a)[i := (results a ! i)\<lparr>aiSummary := Some s\<rparr>]\<rparr>)
      else a)"
| "step (SummaryError i) a =
     (if i < length (results a) \<and> pending i a
      then task_settled i (SummaryValue None) a
      else a)"
| "step (ImageOnload i) a =
     (if i < length (results a) \<and> pending (length (results a) + i) a
      then task_settled (length (results a) + i) (ImageValue True) a
      else a)"
| "step (ImageOnerror i) a =
     (if i < length (results a) \<and> pending (length (results a) + i) a
      then task_settled (length (results a) + i) (ImageValue False) a
      else a)"
| "step TimeoutFired a = (if revealTimer a = None then a else reveal a)"

definition run :: "event list \<Rightarrow> app \<Rightarrow> app" where
  "run evs a = fold step evs a"

section \<open>Stages of a fan-out\<close>

text \<open>Every source of \<^verbatim>\<open>forkJoin\<close> has completed.\<close>

definition all_settled :: "app \<Rightarrow> bool" where
  "all_settled a = list_all (\<lambda>s. s \<noteq> None) (tasks a)"

text \<open>
  A fan-out over \<open>n > 0\<close> results is in one of three stages: some task is still
  running, and nothing is shown; every task has settled and the timer of 1500 ms is
  armed, and nothing is shown yet; or the timer has fired, and the results are shown.
\<close>

definition fanout_stage :: "nat \<Rightarrow> app \<Rightarrow> bool" where
  "fanout_stage n a =
     (0 < n \<and> length (results a) = n \<and> length (tasks a) = 2 * n \<and>
      (if all_settled a
       then (revealTimer a = Some 1500 \<and> loading a \<and> restaurants a = [])
            \<or> (revealTimer a = None \<and> \<not> loading a \<and> restaurants a = results a)
       else revealTimer a = None \<and> loading a \<and> restaurants a = []))"

text \<open>The source of \<^verbatim>\<open>forkJoin\<close> that an event belongs to, among \<open>2 * n\<close> sources.\<close>

fun event_slot :: "nat \<Rightarrow> event \<Rightarrow> nat option" where
  "event_slot n (SummaryResponse i s) = (if i < n then Some i else None)"
| "event_slot n (SummaryError i) = (if i < n then Some i else None)"
| "event_slot n (ImageOnload i) = (if i < n then Some (n + i) else None)"
| "event_slot n (ImageOnerror i) = (if i < n then Some (n + i) else None)"
| "event_slot n TimeoutFired = None"

text \<open>What of a restaurant no task writes.\<close>

definition identity_of :: "restaurant \<Rightarrow> string \<times> string \<times> string option" where
  "identity_of r = (r_id r, name r, photoUrl r)"

section \<open>Concrete scenarios\<close>

text \<open>The form with its distance field holding \<open>d\<close>.\<close>

definition form_with_distance :: "js_number \<Rightarrow> search_component" where
  "form_with_distance d =
     search_component_init\<lparr>preferences := (preferences search_component_init)\<lparr>maxDistance := d\<rparr>\<rparr>"

text \<open>The dropdown after the gateway answered a query with three predictions.\<close>

definition three_predictions :: "prediction list" where
  "three_predictions =
     [\<lparr>description = ''Joes Pizza, Carmine Street'', place_id = ''place-0''\<rparr>,
      \<lparr>description = ''Joes Pizza, Broadway'', place_id = ''place-1''\<rparr>,
      \<lparr>description = ''Joes Pizza, Fulton Street'', place_id = ''place-2''\<rparr>]"

definition dropdown_open :: search_component where
  "dropdown_open =
     fetchPredictions_next three_predictions (search_component_init\<lparr>address := ''Joes Pizza''\<rparr>)"

text \<open>A geolocation API whose high-accuracy attempt times out and whose low-accuracy
  attempt succeeds.\<close>

definition gps_timeout_then_fix :: "position_options \<Rightarrow> position_error + geolocation_position" where
  "gps_timeout_then_fix opts =
     (if enableHighAccuracy opts then Inl \<lparr>code = 3, message = ''Timeout expired''\<rparr>
      else Inr \<lparr>latitude = 10, longitude = 20\<rparr>)"

text \<open>Two restaurants as the recommendation fetch delivers them, the first with a
  photo reference; a summary; a search request; a backend error with a detail.\<close>

definition two_results :: "restaurant list" where
  "two_results =
     [\<lparr>r_id = ''r1'', name = ''Lucali'', photoUrl = Some ''https://img/r1.jpg'', aiSummary = None\<rparr>,
      \<lparr>r_id = ''r2'', name = ''Di Fara'', photoUrl = None, aiSummary = None\<rparr>]"

definition summary_r2 :: ai_summary where
  "summary_r2 =
     \<lparr>restaurantId = ''r2'', summary = ''Thin crust, long queue'', highlights = [''crust''],
      recommendations = [''square pie'']\<rparr>"

definition here_request :: search_request where
  "here_request =
     \<lparr>req_address = ''Current Location'', req_latitude = Some 10, req_longitude = Some 20,
      req_preferences = Some (preferences search_component_init)\<rparr>"



text \<open>A burst of typing, a pause, a correction typed and undone, a pause, and the same
  text entered once more.\<close>

definition typing_trace :: "(nat \<times> string) list" where
  "typing_trace =
     [(0, ''J''), (100, ''Jo''), (200, ''Joe''), (1000, ''Joes''), (1100, ''Joe''),
      (2000, ''Joe'')]"


section \<open>Distance validation\<close>

lemma validateDistance_other_fields:
  "address (validateDistance c) = address c"
  "predictions (validateDistance c) = predictions c"
  "showPredictions (validateDistance c) = showPredictions c"
  by (simp_all add: validateDistance_def Let_def)

text \<open>
  C3. Whatever \<^verbatim>\<open>preferences.maxDistance\<close> holds (a finite number, zero, a negative
  number, NaN, an infinity, null or undefined), after \<^verbatim>\<open>validateDistance\<close> the stored
  value is a finite number between 1 and 50 inclusive: values below 1 and the falsy
  values become 1, values above 50 become 50, and a value already in the range is
  kept.
\<close>

theorem validateDistance_clamps:
  "(\<exists>q. maxDistance (preferences (validateDistance c)) = Fin q \<and> 1 \<le> q \<and> q \<le> 50)
   \<and> (js_falsy (maxDistance (preferences c)) \<or> js_lt (maxDistance (preferences c)) 1
        \<longrightarrow> maxDistance (preferences (validateDistance c)) = Fin 1)
   \<and> (js_gt (maxDistance (preferences c)) 50
        \<longrightarrow> maxDistance (preferences (validateDistance c)) = Fin 50)
   \<and> (\<forall>q. maxDistance (preferences c) = Fin q \<and> 1 \<le> q \<and> q \<le> 50
        \<longrightarrow> maxDistance (preferences (validateDistance c)) = Fin q)"
  by (cases "maxDistance (preferences c)") (auto simp: validateDistance_def Let_def)

theorem validateDistance_clamps_witness:
  "(js_falsy (Fin 0) \<or> js_lt (Fin 0) 1)
   \<and> maxDistance (preferences (validateDistance (form_with_distance (Fin 0)))) = Fin 1
   \<and> js_gt (Fin 75) 50
   \<and> maxDistance (preferences (validateDistance (form_with_distance (Fin 75)))) = Fin 50
   \<and> maxDistance (preferences (validateDistance (form_with_distance (Fin 25)))) = Fin 25
   \<and> maxDistance (preferences (validateDistance (form_with_distance Null))) = Fin 1
   \<and> maxDistance (preferences (validateDistance (form_with_distance NaN))) = Fin 1"
  using validateDistance_clamps [of "form_with_distance (Fin 0)"]
    validateDistance_clamps [of "form_with_distance (Fin 75)"]
    validateDistance_clamps [of "form_with_distance (Fin 25)"]
    validateDistance_clamps [of "form_with_distance Null"]
    validateDistance_clamps [of "form_with_distance NaN"]
  by (simp add: form_with_distance_def search_component_init_def)

section \<open>Short queries\<close>

text \<open>
  C8. For every query of fewer than 3 characters, the empty one included,
  \<^verbatim>\<open>fetchPredictions\<close> dispatches nothing to the gateway, empties the prediction list
  and hides the dropdown (it also resets the error message).
\<close>

theorem fetchPredictions_short_query:
  "length query < 3 \<Longrightarrow>
     fetchPredictions query c
       = (c\<lparr>errorMessage := '''', predictions := [], showPredictions := False\<rparr>, [])"
  by (simp add: fetchPredictions_def Let_def)

theorem fetchPredictions_short_query_witness:
  "length ''Jo'' < 3
   \<and> fetchPredictions ''Jo'' dropdown_open
       = (dropdown_open\<lparr>errorMessage := '''', predictions := [], showPredictions := False\<rparr>, [])
   \<and> fetchPredictions '''' dropdown_open
       = (dropdown_open\<lparr>errorMessage := '''', predictions := [], showPredictions := False\<rparr>, [])"
  using fetchPredictions_short_query [of "''Jo''" dropdown_open]
    fetchPredictions_short_query [of "''''" dropdown_open]
  by simp

text \<open>From 3 characters on, exactly one request goes out, with the session token.\<close>

lemma fetchPredictions_long_query:
  "3 \<le> length query \<Longrightarrow>
     fetchPredictions query c
       = (c\<lparr>errorMessage := ''''\<rparr>, [GetAutocompletePredictions query (sessionToken c)])"
  by (auto simp: fetchPredictions_def Let_def)

section \<open>Keyboard navigation of the dropdown\<close>

text \<open>On the operands \<^verbatim>\<open>onKeydown\<close> gives it, \<^verbatim>\<open>%\<close> agrees with the mathematical
  remainder, also from the no-selection index -1.\<close>

lemma js_rem_nonneg: "0 \<le> a \<Longrightarrow> 0 < b \<Longrightarrow> js_rem a b = a mod b"
  by (cases "a = 0") (simp_all add: js_rem_def)

lemma js_rem_up:
  assumes "1 \<le> k" "-1 \<le> i"
  shows "js_rem (i - 1 + int k) (int k) = (i - 1) mod int k"
proof (cases "i - 1 + int k < 0")
  case True
  with assms have "k = 1" "i = -1" by simp_all
  then show ?thesis by (simp add: js_rem_def)
next
  case False
  then have "js_rem (i - 1 + int k) (int k) = (i - 1 + int k) mod int k"
    using assms by (intro js_rem_nonneg) simp_all
  then show ?thesis by simp
qed

lemma js_rem_down:
  assumes "1 \<le> k" "-1 \<le> i"
  shows "js_rem (i + 1) (int k) = (i + 1) mod int k"
  using assms by (intro js_rem_nonneg) simp_all

text \<open>The index stays a position of the list once an arrow key has been pressed.\<close>

lemma onKeydown_arrow_in_range:
  assumes "showPredictions c" "predictions c \<noteq> []" "-1 \<le> activePredictionIndex c"
    and "k = ArrowDown \<or> k = ArrowUp" and "onKeydown k c = Inr (c', es)"
  shows "0 \<le> activePredictionIndex c' \<and> activePredictionIndex c' < int (length (predictions c'))"
proof -
  from assms(2) have len: "1 \<le> length (predictions c)" by (cases "predictions c") simp_all
  from assms(4) show ?thesis
  proof
    assume "k = ArrowDown"
    with assms len show ?thesis by (auto simp: onKeydown_def js_rem_down)
  next
    assume "k = ArrowUp"
    with assms len show ?thesis by (auto simp: onKeydown_def js_rem_up)
  qed
qed

text \<open>
  The active index is -1 or a position of the list in the initial state and after
  every operation of the component, and under that no key press throws.
\<close>

lemma index_in_range_init: "index_in_range search_component_init"
  by (simp add: index_in_range_def search_component_init_def)

lemma index_in_range_fetch:
  "index_in_range (fetchPredictions_next ps c)"
  "index_in_range c \<Longrightarrow> index_in_range (fetchPredictions_error c)"
  "index_in_range c \<Longrightarrow> index_in_range (fst (fetchPredictions query c))"
  "index_in_range c \<Longrightarrow> index_in_range (fst (selectPrediction p c))"
  "index_in_range c \<Longrightarrow> index_in_range (validateDistance c)"
  by (auto simp: index_in_range_def fetchPredictions_next_def fetchPredictions_error_def
      fetchPredictions_def selectPrediction_def validateDistance_def Let_def)

lemma index_in_range_onKeydown:
  assumes inv: "index_in_range c"
  shows "\<exists>c' es. onKeydown k c = Inr (c', es) \<and> index_in_range c'"
proof (cases "\<not> showPredictions c \<or> predictions c = []")
  case True
  with inv show ?thesis by (simp add: onKeydown_def)
next
  case False
  then have vis: "showPredictions c" and ne: "predictions c \<noteq> []" by simp_all
  from ne have len: "1 \<le> length (predictions c)" by (cases "predictions c") simp_all
  from inv ne have lo: "-1 \<le> activePredictionIndex c"
    and hi: "activePredictionIndex c < int (length (predictions c))"
    by (simp_all add: index_in_range_def)
  have rng: "-1 \<le> x mod int (length (predictions c))
      \<and> x mod int (length (predictions c)) < int (length (predictions c))" for x
  proof -
    from ne have "0 < int (length (predictions c))" by simp
    then have "0 \<le> x mod int (length (predictions c))
        \<and> x mod int (length (predictions c)) < int (length (predictions c))"
      by simp
    then show ?thesis by simp
  qed
  show ?thesis
  proof (cases k)
    case ArrowDown
    with vis ne len lo rng show ?thesis
      by (simp add: onKeydown_def index_in_range_def js_rem_down)
  next
    case ArrowUp
    with vis ne len lo rng show ?thesis
      by (simp add: onKeydown_def index_in_range_def js_rem_up)
  next
    case Enter
    with vis ne lo hi show ?thesis
      by (auto simp: onKeydown_def index_in_range_def selectPrediction_def)
  next
    case Escape
    with vis ne lo hi show ?thesis
      by (simp add: onKeydown_def index_in_range_def)
  next
    case (OtherKey s)
    with vis ne inv show ?thesis
      by (simp add: onKeydown_def)
  qed
qed

text \<open>
  C5. While the dropdown is visible over a non-empty prediction list of length \<open>k\<close>:
  ArrowDown moves the active index \<open>i\<close> to \<open>(i + 1) mod k\<close> and ArrowUp to
  \<open>(i - 1) mod k\<close>, so the index cycles over the \<open>k\<close> positions and wraps at both ends;
  Enter with an active index that is a position of the list sets the input text to
  that prediction's description, hides the dropdown and asks for its place details;
  Escape hides the dropdown and leaves the typed address as it is. While the
  dropdown is hidden or the list is empty, no key changes anything.
\<close>

theorem onKeydown_contract:
  "(showPredictions c \<and> predictions c \<noteq> [] \<and> -1 \<le> activePredictionIndex c \<longrightarrow>
      onKeydown ArrowDown c
        = Inr (c\<lparr>activePredictionIndex :=
                   (activePredictionIndex c + 1) mod int (length (predictions c))\<rparr>,
               [PreventDefault])
      \<and> onKeydown ArrowUp c
        = Inr (c\<lparr>activePredictionIndex :=
                   (activePredictionIndex c - 1) mod int (length (predictions c))\<rparr>,
               [PreventDefault]))
   \<and> (showPredictions c \<and> 0 \<le> activePredictionIndex c
        \<and> activePredictionIndex c < int (length (predictions c)) \<longrightarrow>
      onKeydown Enter c
        = Inr (c\<lparr>address := description (predictions c ! nat (activePredictionIndex c)),
                 showPredictions := False\<rparr>,
               [PreventDefault,
                GetGooglePlaceDetails (place_id (predictions c ! nat (activePredictionIndex c)))]))
   \<and> (showPredictions c \<and> predictions c \<noteq> [] \<longrightarrow>
      onKeydown Escape c = Inr (c\<lparr>showPredictions := False\<rparr>, [])
      \<and> address (c\<lparr>showPredictions := False\<rparr>) = address c)
   \<and> (\<not> showPredictions c \<or> predictions c = [] \<longrightarrow> onKeydown k c = Inr (c, []))"
proof (intro conjI impI)
  assume h: "showPredictions c \<and> predictions c \<noteq> [] \<and> -1 \<le> activePredictionIndex c"
  then have k: "1 \<le> length (predictions c)" by (cases "predictions c") simp_all
  from h k show "onKeydown ArrowDown c
        = Inr (c\<lparr>activePredictionIndex :=
                   (activePredictionIndex c + 1) mod int (length (predictions c))\<rparr>,
               [PreventDefault])"
    by (simp add: onKeydown_def js_rem_down)
  from h k show "onKeydown ArrowUp c
        = Inr (c\<lparr>activePredictionIndex :=
                   (activePredictionIndex c - 1) mod int (length (predictions c))\<rparr>,
               [PreventDefault])"
    by (simp add: onKeydown_def js_rem_up)
next
  assume "showPredictions c \<and> 0 \<le> activePredictionIndex c
        \<and> activePredictionIndex c < int (length (predictions c))"
  then show "onKeydown Enter c
        = Inr (c\<lparr>address := description (predictions c ! nat (activePredictionIndex c)),
                 showPredictions := False\<rparr>,
               [PreventDefault,
                GetGooglePlaceDetails (place_id (predictions c ! nat (activePredictionIndex c)))])"
    by (auto simp: onKeydown_def selectPrediction_def)
next
  assume "showPredictions c \<and> predictions c \<noteq> []"
  then show "onKeydown Escape c = Inr (c\<lparr>showPredictions := False\<rparr>, [])"
    by (simp add: onKeydown_def)
next
  show "address (c\<lparr>showPredictions := False\<rparr>) = address c" by simp
next
  assume "\<not> showPredictions c \<or> predictions c = []"
  then show "onKeydown k c = Inr (c, [])"
    by (auto simp: onKeydown_def)
qed

theorem onKeydown_contract_witness:
  "onKeydown ArrowDown (dropdown_open\<lparr>activePredictionIndex := 0\<rparr>)
     = Inr (dropdown_open\<lparr>activePredictionIndex := 1\<rparr>, [PreventDefault])
   \<and> onKeydown ArrowDown (dropdown_open\<lparr>activePredictionIndex := 2\<rparr>)
     = Inr (dropdown_open\<lparr>activePredictionIndex := 0\<rparr>, [PreventDefault])
   \<and> onKeydown ArrowUp (dropdown_open\<lparr>activePredictionIndex := 0\<rparr>)
     = Inr (dropdown_open\<lparr>activePredictionIndex := 2\<rparr>, [PreventDefault])
   \<and> onKeydown Enter (dropdown_open\<lparr>activePredictionIndex := 1\<rparr>)
     = Inr (dropdown_open\<lparr>activePredictionIndex := 1, address := ''Joes Pizza, Broadway'',
                          showPredictions := False\<rparr>,
            [PreventDefault, GetGooglePlaceDetails ''place-1''])
   \<and> onKeydown Escape (dropdown_open\<lparr>activePredictionIndex := 1\<rparr>)
     = Inr (dropdown_open\<lparr>activePredictionIndex := 1, showPredictions := False\<rparr>, [])
   \<and> address (dropdown_open\<lparr>activePredictionIndex := 1, showPredictions := False\<rparr>) = ''Joes Pizza''
   \<and> onKeydown Enter search_component_init = Inr (search_component_init, [])"
  using onKeydown_contract [of "dropdown_open\<lparr>activePredictionIndex := 0\<rparr>" Enter]
    onKeydown_contract [of "dropdown_open\<lparr>activePredictionIndex := 1\<rparr>" Enter]
    onKeydown_contract [of "dropdown_open\<lparr>activePredictionIndex := 2\<rparr>" Enter]
    onKeydown_contract [of search_component_init Enter]
  by (simp add: dropdown_open_def fetchPredictions_next_def three_predictions_def
      search_component_init_def)

text \<open>
  C10. With the dropdown visible over \<open>k \<ge> 1\<close> predictions and the active index at its
  no-selection value -1, one ArrowDown sets the index to 0, and one ArrowUp sets it
  to \<open>(k - 2) mod k\<close>, which for \<open>k \<ge> 2\<close> is \<open>k - 2\<close>, the second-to-last prediction
  and not the last one.
\<close>

theorem onKeydown_from_no_selection:
  assumes vis: "showPredictions c" and len: "length (predictions c) = k" and k: "k \<ge> 1"
    and idx: "activePredictionIndex c = -1"
  shows "onKeydown ArrowDown c = Inr (c\<lparr>activePredictionIndex := 0\<rparr>, [PreventDefault])
       \<and> onKeydown ArrowUp c
           = Inr (c\<lparr>activePredictionIndex := (int k - 2) mod int k\<rparr>, [PreventDefault])
       \<and> (k \<ge> 2 \<longrightarrow> (int k - 2) mod int k = int k - 2 \<and> (int k - 2) mod int k \<noteq> int k - 1)"
proof -
  have down: "js_rem (-1 + 1) (int k) = 0"
    by (simp add: js_rem_def)
  have up: "js_rem (-1 - 1 + int k) (int k) = (int k - 2) mod int k"
    using js_rem_up [of k "-1"] k by (simp add: algebra_simps)
  have wrap: "k \<ge> 2 \<longrightarrow> (int k - 2) mod int k = int k - 2 \<and> (int k - 2) mod int k \<noteq> int k - 1"
  proof
    assume "k \<ge> 2"
    then have "(int k - 2) mod int k = int k - 2"
      by (intro mod_pos_pos_trivial) simp_all
    then show "(int k - 2) mod int k = int k - 2 \<and> (int k - 2) mod int k \<noteq> int k - 1"
      by simp
  qed
  from vis len k idx
  have "onKeydown ArrowDown c = Inr (c\<lparr>activePredictionIndex := 0\<rparr>, [PreventDefault])"
    using down by (simp add: onKeydown_def)
  moreover from vis len k idx
  have "onKeydown ArrowUp c
          = Inr (c\<lparr>activePredictionIndex := (int k - 2) mod int k\<rparr>, [PreventDefault])"
    using up by (simp add: onKeydown_def)
  ultimately show ?thesis using wrap by blast
qed

theorem onKeydown_from_no_selection_witness:
  "showPredictions dropdown_open \<and> length (predictions dropdown_open) = 3
   \<and> activePredictionIndex dropdown_open = -1
   \<and> onKeydown ArrowDown dropdown_open
       = Inr (dropdown_open\<lparr>activePredictionIndex := 0\<rparr>, [PreventDefault])
   \<and> onKeydown ArrowUp dropdown_open
       = Inr (dropdown_open\<lparr>activePredictionIndex := 1\<rparr>, [PreventDefault])"
  using onKeydown_from_no_selection [of dropdown_open 3]
  by (simp add: dropdown_open_def fetchPredictions_next_def three_predictions_def)

section \<open>Failure of the prediction fetch\<close>

text \<open>The \<^verbatim>\<open>error\<close> callback empties the list and touches nothing else: no dialog, no
  error message, and the dropdown flag keeps the value it had.\<close>

lemma fetchPredictions_error_fields:
  "predictions (fetchPredictions_error c) = []"
  "showPredictions (fetchPredictions_error c) = showPredictions c"
  "errorMessage (fetchPredictions_error c) = errorMessage c"
  "address (fetchPredictions_error c) = address c"
  by (simp_all add: fetchPredictions_error_def)

text \<open>
  C6. The specification has it that after a failed prediction fetch the prediction list is empty
  and the dropdown flag is false. Here the dropdown is open over three predictions,
  the user types on, the request for the longer query goes out and fails: the
  \<^verbatim>\<open>error\<close> callback leaves the list empty and no error message, but
  \<^verbatim>\<open>showPredictions\<close> is still true.
\<close>

theorem fetchPredictions_error_keeps_flag:
  "fetchPredictions ''Joes Pizza NYC'' dropdown_open
     = (dropdown_open, [GetAutocompletePredictions ''Joes Pizza NYC'' None])
   \<and> showPredictions dropdown_open
   \<and> predictions (fetchPredictions_error dropdown_open) = []
   \<and> errorMessage (fetchPredictions_error dropdown_open) = ''''
   \<and> showPredictions (fetchPredictions_error dropdown_open) = True"
  by (simp add: fetchPredictions_def fetchPredictions_error_def dropdown_open_def
      fetchPredictions_next_def three_predictions_def search_component_init_def)

section \<open>Failure of the recommendation fetch\<close>



section \<open>Geolocation policy\<close>

text \<open>
  C4 as stated says that \<^verbatim>\<open>getCurrentPosition\<close> always starts with a high-accuracy
  attempt. Where the browser has no geolocation API, the guard at the top fails the
  observable at once and no attempt is made.
\<close>

theorem getCurrentPosition_unsupported:
  "getCurrentPosition None
     = ([], Inl (NotSupported ''Geolocation is not supported by this browser.''))"
  by (simp add: getCurrentPosition_def)

text \<open>
  C4, amended. Where the browser has a geolocation API, \<^verbatim>\<open>getCurrentPosition\<close> first
  makes a high-accuracy attempt with a timeout of 5000 ms. A success is delivered as
  it is. A failure with code 1 (permission denied) is delivered as the error, with no
  second attempt. After any other failure exactly one more attempt is made, with low
  accuracy, a timeout of 10000 ms and no cached position (maximum age 0), and its
  position or its error is what is delivered. Where the browser has no geolocation
  API, the observable fails at once and no attempt is made.
\<close>

theorem getCurrentPosition_policy:
  "(\<forall>p. acquire highAccuracyOptions = Inr p \<longrightarrow>
        getCurrentPosition (Some acquire) = ([highAccuracyOptions], Inr p))
   \<and> (\<forall>e. acquire highAccuracyOptions = Inl e \<and> code e = 1 \<longrightarrow>
        getCurrentPosition (Some acquire) = ([highAccuracyOptions], Inl (PositionFailed e)))
   \<and> (\<forall>e p. acquire highAccuracyOptions = Inl e \<and> code e \<noteq> 1 \<and> acquire lowAccuracyOptions = Inr p \<longrightarrow>
        getCurrentPosition (Some acquire) = ([highAccuracyOptions, lowAccuracyOptions], Inr p))
   \<and> (\<forall>e e'. acquire highAccuracyOptions = Inl e \<and> code e \<noteq> 1 \<and> acquire lowAccuracyOptions = Inl e' \<longrightarrow>
        getCurrentPosition (Some acquire)
          = ([highAccuracyOptions, lowAccuracyOptions], Inl (PositionFailed e')))
   \<and> enableHighAccuracy highAccuracyOptions \<and> timeout highAccuracyOptions = 5000
   \<and> \<not> enableHighAccuracy lowAccuracyOptions \<and> timeout lowAccuracyOptions = 10000
   \<and> maximumAge lowAccuracyOptions = 0
   \<and> getCurrentPosition None
       = ([], Inl (NotSupported ''Geolocation is not supported by this browser.''))"
  by (simp add: getCurrentPosition_def highAccuracyOptions_def lowAccuracyOptions_def)

theorem getCurrentPosition_policy_witness:
  "gps_timeout_then_fix highAccuracyOptions = Inl \<lparr>code = 3, message = ''Timeout expired''\<rparr>
   \<and> gps_timeout_then_fix lowAccuracyOptions = Inr \<lparr>latitude = 10, longitude = 20\<rparr>
   \<and> getCurrentPosition (Some gps_timeout_then_fix)
       = ([highAccuracyOptions, lowAccuracyOptions], Inr \<lparr>latitude = 10, longitude = 20\<rparr>)"
  using getCurrentPosition_policy [of gps_timeout_then_fix]
  by (simp add: gps_timeout_then_fix_def highAccuracyOptions_def lowAccuracyOptions_def)

text \<open>The scenario of the fallback: the search request carries the coordinates of the
  low-accuracy fix and the address \<^verbatim>\<open>Current Location\<close>.\<close>

lemma useCurrentLocation_fallback_scenario:
  "useCurrentLocation (Some gps_timeout_then_fix) search_component_init
     = (search_component_init\<lparr>sc_loading := True\<rparr>, [OnSearch here_request, SetTimeout 1000])"
  by (simp add: useCurrentLocation_def getCurrentPosition_def gps_timeout_then_fix_def
      highAccuracyOptions_def lowAccuracyOptions_def useCurrentLocation_next_def
      performSearch_def here_request_def search_component_init_def)

section \<open>Debounced, distinct submission of queries\<close>

lemma time_ordered_head_least:
  "time_ordered ((t, v) # rest) \<Longrightarrow> (t', v') \<in> set rest \<Longrightarrow> t \<le> t'"
proof (induction rest arbitrary: t v)
  case Nil
  then show ?case by simp
next
  case (Cons e rest)
  obtain t1 v1 where e: "e = (t1, v1)" by (cases e)
  from Cons.prems(1) e have le: "t \<le> t1" and ord: "time_ordered ((t1, v1) # rest)" by simp_all
  from Cons.prems(2) e consider "(t', v') = (t1, v1)" | "(t', v') \<in> set rest" by auto
  then show ?case
  proof cases
    case 1
    with le show ?thesis by simp
  next
    case 2
    with Cons.IH [OF ord] have "t1 \<le> t'" by simp
    with le show ?thesis by simp
  qed
qed

lemma time_ordered_tail: "time_ordered (e # rest) \<Longrightarrow> time_ordered rest"
  by (cases e, cases rest) auto


lemma time_ordered_gap:
  assumes ord: "time_ordered ((t0, v0) # (t1, v1) # rest)" and gap: "t0 + d \<le> t1"
  shows "\<forall>(t', v') \<in> set ((t1, v1) # rest). t0 + d \<le> t'"
proof -
  from ord have le: "t0 \<le> t1" and ord1: "time_ordered ((t1, v1) # rest)" by simp_all
  have "t0 + d \<le> t'" if mem: "(t', v') \<in> set ((t1, v1) # rest)" for t' v'
  proof (cases "(t', v') = (t1, v1)")
    case True
    with gap show ?thesis by simp
  next
    case False
    with mem have "(t', v') \<in> set rest" by auto
    from time_ordered_head_least [OF ord1 this] gap show ?thesis by simp
  qed
  then show ?thesis by blast
qed

lemma debounceTime_mem_cases:
  assumes "(t, v) \<in> set (debounceTime d now ((t0, v0) # (t1, v1) # rest))"
  shows "(t0 + d \<le> t1 \<and> t = t0 + d \<and> v = v0)
       \<or> (t, v) \<in> set (debounceTime d now ((t1, v1) # rest))"
proof (cases "t0 + d \<le> t1")
  case True
  then have "debounceTime d now ((t0, v0) # (t1, v1) # rest)
      = (t0 + d, v0) # debounceTime d now ((t1, v1) # rest)"
    by (simp only: debounceTime.simps if_True append_Cons append_Nil)
  with assms have "(t, v) = (t0 + d, v0) \<or> (t, v) \<in> set (debounceTime d now ((t1, v1) # rest))"
    by (simp only: set_ConsD list.set insert_iff)
  with True show ?thesis by blast
next
  case False
  then have "debounceTime d now ((t0, v0) # (t1, v1) # rest)
      = debounceTime d now ((t1, v1) # rest)"
    by (simp only: debounceTime.simps if_False append_Nil)
  with assms have "(t, v) \<in> set (debounceTime d now ((t1, v1) # rest))"
    by (simp only:)
  then show ?thesis by blast
qed

lemma debounceTime_quiet:
  "time_ordered evs \<Longrightarrow> (t, v) \<in> set (debounceTime d now evs) \<Longrightarrow>
     \<exists>pre post. evs = pre @ (t - d, v) # post \<and> d \<le> t \<and> (\<forall>(t', v') \<in> set post. t \<le> t')"
proof (induction d now evs rule: debounceTime.induct)
  case (1 d now)
  then show ?case by simp
next
  case (2 d now t0 v0)
  then have tv: "t = t0 + d" "v = v0" by (auto split: if_splits)
  show ?case
  proof (intro exI conjI)
    from tv show "[(t0, v0)] = [] @ (t - d, v) # []" by simp
    from tv show "d \<le> t" by simp
    show "\<forall>(t', v') \<in> set []. t \<le> t'" by simp
  qed
next
  case (3 d now t0 v0 t1 v1 rest)
  from debounceTime_mem_cases [OF "3.prems"(2)]
  show ?case
  proof
    assume head: "t0 + d \<le> t1 \<and> t = t0 + d \<and> v = v0"
    show ?thesis
    proof (intro exI conjI)
      from head show "(t0, v0) # (t1, v1) # rest = [] @ (t - d, v) # ((t1, v1) # rest)" by simp
      from head show "d \<le> t" by simp
      from head time_ordered_gap [OF "3.prems"(1), of d]
      show "\<forall>(t', v') \<in> set ((t1, v1) # rest). t \<le> t'" by simp
    qed
  next
    assume later: "(t, v) \<in> set (debounceTime d now ((t1, v1) # rest))"
    from "3.prems"(1) have "time_ordered ((t1, v1) # rest)" by simp
    from "3.IH" [OF this later] obtain pre post where
      split: "(t1, v1) # rest = pre @ (t - d, v) # post" and dt: "d \<le> t"
      and q: "\<forall>(t', v') \<in> set post. t \<le> t'"
      by (elim exE conjE)
    show ?thesis
    proof (intro exI conjI)
      from split show "(t0, v0) # (t1, v1) # rest = ((t0, v0) # pre) @ (t - d, v) # post"
        by simp
      from dt show "d \<le> t" .
      from q show "\<forall>(t', v') \<in> set post. t \<le> t'" .
    qed
  qed
qed

lemma distinctUntilChanged_from_subset:
  "set (distinctUntilChanged_from p evs) \<subseteq> set evs"
  by (induction p evs rule: distinctUntilChanged_from.induct) auto

lemma distinctUntilChanged_from_values:
  "map snd (distinctUntilChanged_from p evs)
     = (case p of None \<Rightarrow> remdups_adj (map snd evs)
                | Some w \<Rightarrow> tl (remdups_adj (w # map snd evs)))"
proof (induction p evs rule: distinctUntilChanged_from.induct)
  case (1 prev)
  then show ?case by (simp split: option.splits)
next
  case (2 prev t v rest)
  then show ?case
    by (cases prev; cases rest) (auto split: option.splits)
qed

lemma distinctUntilChanged_values:
  "map snd (distinctUntilChanged evs) = remdups_adj (map snd evs)"
  by (simp add: distinctUntilChanged_def distinctUntilChanged_from_values)

text \<open>
  C2. For every trace of keystrokes in time order, each query handed to
  \<^verbatim>\<open>fetchPredictions\<close> is handed over 300 ms after the keystroke that produced it, and
  every keystroke after that one comes no earlier than the hand-over: the 300 ms were
  quiet. No two consecutive hand-overs carry the same query; what is suppressed of the
  debounced values is exactly the consecutive repetitions.
\<close>

theorem searchSubscription_debounced_distinct:
  assumes "time_ordered nexts"
  shows "(\<forall>(t, q) \<in> set (searchSubscription now nexts).
            \<exists>pre post. nexts = pre @ (t - 300, q) # post \<and> 300 \<le> t
                        \<and> (\<forall>(t', q') \<in> set post. t \<le> t'))
       \<and> (\<forall>i. Suc i < length (searchSubscription now nexts) \<longrightarrow>
              snd (searchSubscription now nexts ! i) \<noteq> snd (searchSubscription now nexts ! Suc i))
       \<and> map snd (searchSubscription now nexts)
           = remdups_adj (map snd (debounceTime 300 now nexts))"
proof (intro conjI)
  show "\<forall>(t, q) \<in> set (searchSubscription now nexts).
            \<exists>pre post. nexts = pre @ (t - 300, q) # post \<and> 300 \<le> t
                        \<and> (\<forall>(t', q') \<in> set post. t \<le> t')"
  proof (clarify)
    fix t q assume "(t, q) \<in> set (searchSubscription now nexts)"
    then have "(t, q) \<in> set (debounceTime 300 now nexts)"
      using distinctUntilChanged_from_subset [of None "debounceTime 300 now nexts"]
      by (auto simp: searchSubscription_def distinctUntilChanged_def)
    from debounceTime_quiet [OF assms this]
    show "\<exists>pre post. nexts = pre @ (t - 300, q) # post \<and> 300 \<le> t
                        \<and> (\<forall>(t', q') \<in> set post. t \<le> t')" .
  qed
next
  have vals: "map snd (searchSubscription now nexts)
                = remdups_adj (map snd (debounceTime 300 now nexts))"
    by (simp add: searchSubscription_def distinctUntilChanged_values)
  then show "map snd (searchSubscription now nexts)
                = remdups_adj (map snd (debounceTime 300 now nexts))" .
  have "distinct_adj (map snd (searchSubscription now nexts))"
    by (simp add: vals)
  then show "\<forall>i. Suc i < length (searchSubscription now nexts) \<longrightarrow>
              snd (searchSubscription now nexts ! i) \<noteq> snd (searchSubscription now nexts ! Suc i)"
    by (auto simp: distinct_adj_conv_nth)
qed

theorem searchSubscription_debounced_distinct_witness:
  "time_ordered typing_trace
   \<and> searchSubscription 5000 typing_trace = [(500, ''Joe'')]
   \<and> (\<exists>pre post. typing_trace = pre @ (200, ''Joe'') # post \<and> (\<forall>(t', q') \<in> set post. 500 \<le> t'))"
proof -
  have ord: "time_ordered typing_trace" by (simp add: typing_trace_def)
  have sub: "searchSubscription 5000 typing_trace = [(500, ''Joe'')]"
    by (simp add: searchSubscription_def distinctUntilChanged_def typing_trace_def)
  from searchSubscription_debounced_distinct [OF ord, of 5000] sub
  have "\<exists>pre post. typing_trace = pre @ (200, ''Joe'') # post \<and> (\<forall>(t', q') \<in> set post. 500 \<le> t')"
    by simp
  with ord sub show ?thesis by blast
qed

section \<open>Fan-out and fan-in of the enrichment tasks\<close>

text \<open>Without a running task and without an armed timer, no event changes the state.\<close>

lemma step_idle:
  assumes "tasks a = []" "revealTimer a = None"
  shows "step ev a = a"
  using assms by (cases ev) (simp_all add: pending_def)

lemma run_idle:
  assumes "tasks a = []" "revealTimer a = None"
  shows "run evs a = a"
  unfolding run_def using assms
  by (induction evs) (simp_all add: step_idle)

lemma handleSearch_next_empty:
  "handleSearch_next [] a = a\<lparr>loadingMessage := ''Finalizing your personalized menu...'',
       results := [], tasks := [], effects := effects a\<rparr>"
  by (simp add: handleSearch_next_def forkJoin_emits_def)

text \<open>
  C1. The specification has it that for every number \<open>N\<close> of restaurants the search completes and
  never hangs. Here the recommendation fetch succeeds with the empty list: no task is
  created, \<^verbatim>\<open>forkJoin\<close> of the empty array completes without emitting, so the callback
  that arms the reveal never runs. Whatever happens afterwards, the state stays as the
  \<^verbatim>\<open>next\<close> callback left it: loading flag on, message timer running, no timer for
  the reveal.
\<close>

theorem handleSearch_empty_results_hangs:
  "run evs (handleSearch_next [] (handleSearch req app_init))
     = handleSearch_next [] (handleSearch req app_init)
   \<and> loading (handleSearch_next [] (handleSearch req app_init)) = True
   \<and> restaurants (handleSearch_next [] (handleSearch req app_init)) = []
   \<and> messageInterval (handleSearch_next [] (handleSearch req app_init)) = True
   \<and> revealTimer (handleSearch_next [] (handleSearch req app_init)) = None
   \<and> tasks (handleSearch_next [] (handleSearch req app_init)) = []
   \<and> effects (handleSearch_next [] (handleSearch req app_init)) = [GetPizzaRecommendations req]"
proof -
  let ?a = "handleSearch_next [] (handleSearch req app_init)"
  have t: "tasks ?a = []" and r: "revealTimer ?a = None"
    by (simp_all add: handleSearch_next_empty handleSearch_def app_init_def)
  from run_idle [OF t r] have "run evs ?a = ?a" .
  moreover have "loading ?a = True" "restaurants ?a = []" "messageInterval ?a = True"
    "effects ?a = [GetPizzaRecommendations req]"
    by (simp_all add: handleSearch_next_empty handleSearch_def app_init_def)
  ultimately show ?thesis using t r by simp
qed


text \<open>
  With at least one restaurant the fan-out behaves as described. The stage of a
  fan-out is kept by every event.
\<close>

lemma forkJoin_emits_tasks: "forkJoin_emits (tasks a) \<longleftrightarrow> tasks a \<noteq> [] \<and> all_settled a"
  by (simp add: forkJoin_emits_def all_settled_def)

lemma pending_not_all_settled: "pending i a \<Longrightarrow> \<not> all_settled a"
  by (auto simp: pending_def all_settled_def list_all_length)

lemma all_settled_iff: "all_settled a \<longleftrightarrow> (\<forall>i < length (tasks a). \<not> pending i a)"
  by (auto simp: pending_def all_settled_def list_all_length)

lemma task_settled_fields:
  "results (task_settled i v a) = results a"
  "restaurants (task_settled i v a) = restaurants a"
  "loading (task_settled i v a) = loading a"
  "effects (task_settled i v a) = effects a"
  "tasks (task_settled i v a) = (tasks a)[i := Some v]"
  "revealTimer (task_settled i v a)
     = (if forkJoin_emits ((tasks a)[i := Some v]) then Some 1500 else revealTimer a)"
  by (simp_all add: task_settled_def forkJoin_next_def Let_def)

lemma fanout_stage_task_settled:
  assumes st: "fanout_stage n a" and p: "pending i a"
  shows "fanout_stage n (task_settled i v a)"
proof -
  from p have ns: "\<not> all_settled a" by (rule pending_not_all_settled)
  with st have n: "0 < n" and lr: "length (results a) = n" and lt: "length (tasks a) = 2 * n"
    and idle: "revealTimer a = None" "loading a" "restaurants a = []"
    by (simp_all add: fanout_stage_def)
  let ?a = "task_settled i v a"
  have lt': "length (tasks ?a) = 2 * n" using lt by (simp add: task_settled_fields)
  have ne: "tasks ?a \<noteq> []" using lt' n by auto
  have emits: "forkJoin_emits ((tasks a)[i := Some v]) \<longleftrightarrow> all_settled ?a"
    using ne by (simp add: forkJoin_emits_def all_settled_def task_settled_fields)
  show ?thesis
  proof (cases "all_settled ?a")
    case True
    with emits have "revealTimer ?a = Some 1500" by (simp add: task_settled_fields)
    with True n lr lt' idle show ?thesis
      by (simp add: fanout_stage_def task_settled_fields)
  next
    case False
    with emits have "revealTimer ?a = None" using idle by (simp add: task_settled_fields)
    with False n lr lt' idle show ?thesis
      by (simp add: fanout_stage_def task_settled_fields)
  qed
qed

lemma fanout_stage_results_update:
  assumes st: "fanout_stage n a" and ns: "\<not> all_settled a"
  shows "fanout_stage n (a\<lparr>results := (results a)[i := r]\<rparr>)"
  using assms by (simp add: fanout_stage_def all_settled_def)

lemma pending_results_update [simp]: "pending i (a\<lparr>results := rs\<rparr>) = pending i a"
  by (simp add: pending_def)

lemma fanout_stage_reveal:
  assumes st: "fanout_stage n a" and armed: "revealTimer a \<noteq> None"
  shows "fanout_stage n (reveal a)"
proof -
  from st armed have "all_settled a"
    by (auto simp: fanout_stage_def split: if_splits)
  then have "all_settled (reveal a)" by (simp add: all_settled_def reveal_def)
  with st show ?thesis by (simp add: fanout_stage_def reveal_def)
qed

lemma fanout_stage_step:
  assumes st: "fanout_stage n a"
  shows "fanout_stage n (step ev a)"
proof (cases ev)
  case (SummaryResponse i s)
  show ?thesis
  proof (cases "i < length (results a) \<and> pending i a")
    case True
    then have ns: "\<not> all_settled a" by (auto dest: pending_not_all_settled)
    let ?a1 = "a\<lparr>results := (results a)[i := (results a ! i)\<lparr>aiSummary := Some s\<rparr>]\<rparr>"
    from fanout_stage_results_update [OF st ns] have "fanout_stage n ?a1" .
    moreover from True have "pending i ?a1" by simp
    ultimately have "fanout_stage n (task_settled i (SummaryValue (Some s)) ?a1)"
      by (rule fanout_stage_task_settled)
    with True SummaryResponse show ?thesis by simp
  next
    case False
    with SummaryResponse st show ?thesis by auto
  qed
next
  case (SummaryError i)
  with st show ?thesis by (auto simp: fanout_stage_task_settled)
next
  case (ImageOnload i)
  with st show ?thesis by (auto simp: fanout_stage_task_settled)
next
  case (ImageOnerror i)
  with st show ?thesis by (auto simp: fanout_stage_task_settled)
next
  case TimeoutFired
  with st show ?thesis by (auto simp: fanout_stage_reveal)
qed

lemma fanout_stage_run:
  "fanout_stage n a \<Longrightarrow> fanout_stage n (run evs a)"
  unfolding run_def
  by (induction evs arbitrary: a) (simp_all add: fanout_stage_step)

lemma fanout_stage_start:
  assumes ne: "rs \<noteq> []" and idle: "revealTimer a = None" "loading a" "restaurants a = []"
  shows "fanout_stage (length rs) (handleSearch_next rs a)"
proof -
  let ?slots = "map (\<lambda>r. None) rs @ map (\<lambda>r. if no_photo r then Some (ImageValue True) else None) rs"
  from ne obtain r rs' where rs: "rs = r # rs'" by (cases rs) auto
  have "\<not> list_all (\<lambda>s. s \<noteq> None) ?slots" by (simp add: rs)
  then have ne': "\<not> forkJoin_emits ?slots" by (simp add: forkJoin_emits_def)
  then have eq: "handleSearch_next rs a
      = a\<lparr>loadingMessage := ''Finalizing your personalized menu...'', results := rs,
           tasks := ?slots,
           effects := effects a @ map (\<lambda>r. GetAISummary (r_id r)) rs
                        @ concat (map (\<lambda>r. case photoUrl r of
                                               None \<Rightarrow> []
                                             | Some u \<Rightarrow> if u = [] then [] else [LoadImage u]) rs)\<rparr>"
    by (simp add: handleSearch_next_def Let_def)
  have "\<not> all_settled (handleSearch_next rs a)"
    unfolding eq by (simp add: all_settled_def rs)
  moreover have "length (tasks (handleSearch_next rs a)) = 2 * length rs"
    "length (results (handleSearch_next rs a)) = length rs"
    "revealTimer (handleSearch_next rs a) = None" "loading (handleSearch_next rs a)"
    "restaurants (handleSearch_next rs a) = []"
    unfolding eq using idle by simp_all
  ultimately show ?thesis using ne by (simp add: fanout_stage_def)
qed


text \<open>Every task that gets its event settles, and a settled task stays settled.\<close>

lemma handleSearch_next_nonempty:
  assumes "rs \<noteq> []"
  shows "handleSearch_next rs a
      = a\<lparr>loadingMessage := ''Finalizing your personalized menu...'', results := rs,
           tasks := map (\<lambda>r. None) rs
                    @ map (\<lambda>r. if no_photo r then Some (ImageValue True) else None) rs,
           effects := effects a @ map (\<lambda>r. GetAISummary (r_id r)) rs
                        @ concat (map (\<lambda>r. case photoUrl r of
                                               None \<Rightarrow> []
                                             | Some u \<Rightarrow> if u = [] then [] else [LoadImage u]) rs)\<rparr>"
proof -
  from assms obtain r rs' where rs: "rs = r # rs'" by (cases rs) auto
  have "\<not> forkJoin_emits (map (\<lambda>r. None) rs
          @ map (\<lambda>r. if no_photo r then Some (ImageValue True) else None) rs)"
    by (simp add: forkJoin_emits_def rs)
  then show ?thesis by (simp add: handleSearch_next_def Let_def)
qed

lemma step_lengths:
  "length (tasks (step ev a)) = length (tasks a)"
  "length (results (step ev a)) = length (results a)"
  by (cases ev; simp add: task_settled_fields reveal_def)+

lemma step_keeps_settled:
  assumes "\<not> pending j a"
  shows "\<not> pending j (step ev a)"
proof -
  have upd: "\<not> pending j (task_settled i v b)" if "\<not> pending j b" for i v b
    using that by (cases "i = j") (auto simp: pending_def task_settled_fields)
  have rev: "pending j (reveal a) = pending j a"
    by (simp add: pending_def reveal_def)
  from assms show ?thesis
    by (cases ev) (simp_all add: upd rev)
qed

lemma task_settled_settles: "i < length (tasks a) \<Longrightarrow> \<not> pending i (task_settled i v a)"
  by (simp add: pending_def task_settled_fields)

lemma step_settles:
  assumes lr: "length (results a) = n" and lt: "length (tasks a) = 2 * n"
    and slot: "event_slot n ev = Some j"
  shows "\<not> pending j (step ev a)"
proof (cases ev)
  case (SummaryResponse i s)
  with slot have i: "i < n" "j = i" by (auto split: if_splits)
  show ?thesis
  proof (cases "pending i a")
    case True
    with i lr lt SummaryResponse show ?thesis
      by (simp add: task_settled_settles)
  next
    case False
    with i SummaryResponse show ?thesis by simp
  qed
next
  case (SummaryError i)
  with slot have i: "i < n" "j = i" by (auto split: if_splits)
  show ?thesis
  proof (cases "pending i a")
    case True
    with i lr lt SummaryError show ?thesis
      by (simp add: task_settled_settles)
  next
    case False
    with i SummaryError show ?thesis by simp
  qed
next
  case (ImageOnload i)
  with slot have i: "i < n" "j = n + i" by (auto split: if_splits)
  show ?thesis
  proof (cases "pending (n + i) a")
    case True
    with i lr lt ImageOnload show ?thesis
      by (simp add: task_settled_settles)
  next
    case False
    with i lr ImageOnload show ?thesis by simp
  qed
next
  case (ImageOnerror i)
  with slot have i: "i < n" "j = n + i" by (auto split: if_splits)
  show ?thesis
  proof (cases "pending (n + i) a")
    case True
    with i lr lt ImageOnerror show ?thesis
      by (simp add: task_settled_settles)
  next
    case False
    with i lr ImageOnerror show ?thesis by simp
  qed
next
  case TimeoutFired
  with slot show ?thesis by simp
qed

lemma run_settles_all:
  assumes "length (results a) = n" "length (tasks a) = 2 * n"
    and "\<forall>j < 2 * n. \<not> pending j a \<or> (\<exists>ev \<in> set evs. event_slot n ev = Some j)"
  shows "all_settled (run evs a)"
  using assms
proof (induction evs arbitrary: a)
  case Nil
  then show ?case by (simp add: run_def all_settled_iff)
next
  case (Cons ev evs)
  have cover: "\<forall>j < 2 * n. \<not> pending j (step ev a) \<or> (\<exists>ev' \<in> set evs. event_slot n ev' = Some j)"
  proof (intro allI impI)
    fix j assume j: "j < 2 * n"
    with Cons.prems(3) consider "\<not> pending j a" | "event_slot n ev = Some j"
      | "\<exists>ev' \<in> set evs. event_slot n ev' = Some j"
      by auto
    then show "\<not> pending j (step ev a) \<or> (\<exists>ev' \<in> set evs. event_slot n ev' = Some j)"
    proof cases
      case 1
      then show ?thesis by (simp add: step_keeps_settled)
    next
      case 2
      from step_settles [OF Cons.prems(1) Cons.prems(2) this] show ?thesis by simp
    next
      case 3
      then show ?thesis by simp
    qed
  qed
  have l1: "length (results (step ev a)) = n" using Cons.prems(1) by (simp add: step_lengths)
  have l2: "length (tasks (step ev a)) = 2 * n" using Cons.prems(2) by (simp add: step_lengths)
  from Cons.IH [OF l1 l2 cover] show ?case by (simp add: run_def)
qed

text \<open>No event changes which restaurants there are: a summary answer writes the
  \<^verbatim>\<open>aiSummary\<close> of its restaurant, and nothing else writes at all.\<close>

lemma step_identity: "map identity_of (results (step ev a)) = map identity_of (results a)"
proof (cases ev)
  case (SummaryResponse i s)
  have "map identity_of ((results a)[i := (results a ! i)\<lparr>aiSummary := Some s\<rparr>])
          = map identity_of (results a)" if "i < length (results a)"
    using that by (simp add: map_update identity_of_def list_update_same_conv)
  with SummaryResponse show ?thesis by (simp add: task_settled_fields)
qed (simp_all add: task_settled_fields reveal_def)

lemma run_identity: "map identity_of (results (run evs a)) = map identity_of (results a)"
  unfolding run_def
  by (induction evs arbitrary: a) (simp_all add: step_identity)

lemma step_failure_results:
  "results (step (SummaryError i) a) = results a"
  "results (step (ImageOnload i) a) = results a"
  "results (step (ImageOnerror i) a) = results a"
  "results (step TimeoutFired a) = results a"
  by (simp_all add: task_settled_fields reveal_def)


text \<open>While a task is running, nothing is shown and the timer is not armed.\<close>

lemma fanout_hidden_while_pending:
  assumes "rs \<noteq> []" "revealTimer a = None" "loading a" "restaurants a = []"
    and "j < 2 * length rs" "pending j (run evs (handleSearch_next rs a))"
  shows "restaurants (run evs (handleSearch_next rs a)) = []
       \<and> loading (run evs (handleSearch_next rs a))
       \<and> revealTimer (run evs (handleSearch_next rs a)) = None"
proof -
  let ?a = "run evs (handleSearch_next rs a)"
  from fanout_stage_start [OF assms(1-4)] have "fanout_stage (length rs) ?a"
    by (rule fanout_stage_run)
  moreover from assms(6) have "\<not> all_settled ?a" by (rule pending_not_all_settled)
  ultimately show ?thesis by (simp add: fanout_stage_def)
qed

text \<open>
  Once every summary request has answered or failed and every image with a photo
  reference has loaded or failed, in any order, the timer of 1500 ms is armed, and
  when it has fired the list shown is the list of the \<open>N\<close> restaurants delivered, with
  the loading flag off.
\<close>

lemma fanout_completes:
  assumes ne: "rs \<noteq> []" and idle: "revealTimer a = None" "loading a" "restaurants a = []"
    and cover: "\<forall>i < length rs.
        (\<exists>ev \<in> set evs. event_slot (length rs) ev = Some i)
        \<and> (no_photo (rs ! i) \<or> (\<exists>ev \<in> set evs. event_slot (length rs) ev = Some (length rs + i)))"
  shows "restaurants (run (evs @ [TimeoutFired]) (handleSearch_next rs a))
           = results (run evs (handleSearch_next rs a))
       \<and> \<not> loading (run (evs @ [TimeoutFired]) (handleSearch_next rs a))
       \<and> map identity_of (restaurants (run (evs @ [TimeoutFired]) (handleSearch_next rs a)))
           = map identity_of rs
       \<and> length (restaurants (run (evs @ [TimeoutFired]) (handleSearch_next rs a))) = length rs"
proof -
  let ?n = "length rs"
  let ?a0 = "handleSearch_next rs a"
  let ?a1 = "run evs ?a0"
  have st0: "fanout_stage ?n ?a0" by (rule fanout_stage_start [OF ne idle])
  then have st1: "fanout_stage ?n ?a1" by (rule fanout_stage_run)
  have lr: "length (results ?a0) = ?n" and lt: "length (tasks ?a0) = 2 * ?n"
    using st0 by (simp_all add: fanout_stage_def)
  have cov: "\<forall>j < 2 * ?n. \<not> pending j ?a0 \<or> (\<exists>ev \<in> set evs. event_slot ?n ev = Some j)"
  proof (intro allI impI)
    fix j assume j: "j < 2 * ?n"
    show "\<not> pending j ?a0 \<or> (\<exists>ev \<in> set evs. event_slot ?n ev = Some j)"
    proof (cases "j < ?n")
      case True
      with cover show ?thesis by simp
    next
      case False
      define i where "i = j - ?n"
      with False j have i: "i < ?n" "j = ?n + i" by simp_all
      show ?thesis
      proof (cases "no_photo (rs ! i)")
        case True
        with i have "tasks ?a0 ! j = Some (ImageValue True)"
          by (simp add: handleSearch_next_nonempty [OF ne] nth_append)
        then show ?thesis by (simp add: pending_def)
      next
        case False
        with cover i show ?thesis by auto
      qed
    qed
  qed
  have settled: "all_settled ?a1" by (rule run_settles_all [OF lr lt cov])
  have run_app: "run (evs @ [TimeoutFired]) ?a0 = step TimeoutFired ?a1"
    by (simp add: run_def)
  from st1 settled consider
      (armed) "revealTimer ?a1 = Some 1500" "loading ?a1" "restaurants ?a1 = []"
    | (shown) "revealTimer ?a1 = None" "\<not> loading ?a1" "restaurants ?a1 = results ?a1"
    by (auto simp: fanout_stage_def)
  then have shown: "restaurants (step TimeoutFired ?a1) = results ?a1
      \<and> \<not> loading (step TimeoutFired ?a1)"
  proof cases
    case armed
    then show ?thesis by (simp add: reveal_def)
  next
    case shown
    then show ?thesis by simp
  qed
  have ident: "map identity_of (results ?a1) = map identity_of rs"
    by (simp add: run_identity handleSearch_next_nonempty [OF ne])
  have len: "length (results ?a1) = length rs"
    using st1 by (simp add: fanout_stage_def)
  from shown ident len show ?thesis by (simp add: run_app)
qed

text \<open>When every summary request and every image fails, the restaurants are shown as
  they were delivered.\<close>

lemma run_failures_results:
  assumes "\<forall>ev \<in> set evs. \<forall>i s. ev \<noteq> SummaryResponse i s"
  shows "results (run evs a) = results a"
  using assms unfolding run_def
proof (induction evs arbitrary: a)
  case Nil
  then show ?case by simp
next
  case (Cons ev evs)
  then have "results (step ev a) = results a"
    by (cases ev) (simp_all add: task_settled_fields reveal_def)
  with Cons show ?case by simp
qed

lemma fanout_all_tasks_fail:
  assumes ne: "rs \<noteq> []" and idle: "revealTimer a = None" "loading a" "restaurants a = []"
  shows "restaurants (run ((map SummaryError [0..<length rs] @ map ImageOnerror [0..<length rs])
                             @ [TimeoutFired]) (handleSearch_next rs a)) = rs
       \<and> \<not> loading (run ((map SummaryError [0..<length rs] @ map ImageOnerror [0..<length rs])
                             @ [TimeoutFired]) (handleSearch_next rs a))"
proof -
  let ?evs = "map SummaryError [0..<length rs] @ map ImageOnerror [0..<length rs]"
  have cover: "\<forall>i < length rs.
        (\<exists>ev \<in> set ?evs. event_slot (length rs) ev = Some i)
        \<and> (no_photo (rs ! i) \<or> (\<exists>ev \<in> set ?evs. event_slot (length rs) ev = Some (length rs + i)))"
  proof (intro allI impI conjI)
    fix i assume i: "i < length rs"
    then have "SummaryError i \<in> set ?evs" "event_slot (length rs) (SummaryError i) = Some i"
      by simp_all
    then show "\<exists>ev \<in> set ?evs. event_slot (length rs) ev = Some i" by (rule bexI [rotated])
    from i have "ImageOnerror i \<in> set ?evs"
      "event_slot (length rs) (ImageOnerror i) = Some (length rs + i)"
      by simp_all
    then have "\<exists>ev \<in> set ?evs. event_slot (length rs) ev = Some (length rs + i)"
      by (rule bexI [rotated])
    then show "no_photo (rs ! i) \<or> (\<exists>ev \<in> set ?evs. event_slot (length rs) ev = Some (length rs + i))"
      by (rule disjI2)
  qed
  have "results (run ?evs (handleSearch_next rs a)) = results (handleSearch_next rs a)"
    by (rule run_failures_results) auto
  then have "results (run ?evs (handleSearch_next rs a)) = rs"
    by (simp add: handleSearch_next_nonempty [OF ne])
  with fanout_completes [OF ne idle cover] show ?thesis by simp
qed

text \<open>Two results, the summary of the first fails and that of the second arrives: the
  list is shown only after the last task has settled and the timer has fired.\<close>

lemma fanout_two_results_scenario:
  "restaurants (run [SummaryResponse 1 summary_r2, ImageOnerror 0, SummaryError 0, TimeoutFired]
                  (handleSearch_next two_results (handleSearch here_request app_init)))
     = [\<lparr>r_id = ''r1'', name = ''Lucali'', photoUrl = Some ''https://img/r1.jpg'', aiSummary = None\<rparr>,
        \<lparr>r_id = ''r2'', name = ''Di Fara'', photoUrl = None, aiSummary = Some summary_r2\<rparr>]
   \<and> restaurants (run [SummaryResponse 1 summary_r2, ImageOnerror 0, SummaryError 0]
                  (handleSearch_next two_results (handleSearch here_request app_init))) = []
   \<and> revealTimer (run [SummaryResponse 1 summary_r2, ImageOnerror 0, SummaryError 0]
                  (handleSearch_next two_results (handleSearch here_request app_init))) = Some 1500
   \<and> revealTimer (run [SummaryResponse 1 summary_r2, ImageOnerror 0]
                  (handleSearch_next two_results (handleSearch here_request app_init))) = None"
  by (simp add: run_def handleSearch_next_def handleSearch_def app_init_def two_results_def
      no_photo_def forkJoin_emits_def forkJoin_next_def task_settled_def pending_def reveal_def
      Let_def)

section \<open>Summary cache of the detail view\<close>

text \<open>
  Selecting a restaurant that carries an \<^verbatim>\<open>aiSummary\<close> sends no request and shows
  that summary at once, with the loading flag off, whatever the component showed
  before.
\<close>

lemma selectRestaurant_cached:
  "aiSummary r = Some s \<Longrightarrow>
     selectRestaurant r c
       = (c\<lparr>selectedRestaurant := Some r, rc_aiSummary := Some s, loadingSummary := False\<rparr>, [])"
  by (simp add: selectRestaurant_def Let_def)

text \<open>
  The summary that \<^verbatim>\<open>loadAISummary\<close> fetches goes to the component's own field and not
  to the restaurant: a restaurant that came without a summary is asked for again at
  every selection.
\<close>

lemma selectRestaurant_uncached:
  assumes "aiSummary r = None"
  shows "snd (selectRestaurant r c) = [GetAISummary (r_id r)]"
    and "selectedRestaurant (loadAISummary_next s (fst (selectRestaurant r c))) = Some r"
    and "rc_restaurants (loadAISummary_next s (fst (selectRestaurant r c))) = rc_restaurants c"
    and "snd (selectRestaurant r (loadAISummary_next s (fst (selectRestaurant r c))))
           = [GetAISummary (r_id r)]"
  using assms
  by (simp_all add: selectRestaurant_def loadAISummary_def loadAISummary_next_def Let_def)

text \<open>
  The callbacks of the two pre-fetches do write the restaurant, that of
  \<^verbatim>\<open>preloadSummaries\<close> as that of the fan-out in \<^verbatim>\<open>handleSearch\<close>: after either, a
  selection of that restaurant sends nothing.
\<close>

lemma preloadSummaries_next_caches:
  assumes "i < length (rc_restaurants c)"
  shows "aiSummary (rc_restaurants (preloadSummaries_next i s c) ! i) = Some s"
    and "snd (selectRestaurant (rc_restaurants (preloadSummaries_next i s c) ! i) c') = []"
  using assms
  by (simp_all add: preloadSummaries_next_def selectRestaurant_def Let_def)

lemma handleSearch_summary_caches:
  assumes "i < length (results a)" "pending i a"
  shows "aiSummary (results (step (SummaryResponse i s) a) ! i) = Some s"
    and "snd (selectRestaurant (results (step (SummaryResponse i s) a) ! i) c) = []"
  using assms
  by (simp_all add: task_settled_def forkJoin_next_def selectRestaurant_def Let_def)


end
